theory Spec2Isabelle
  imports Main "HOL-Library.Multiset" "HOL-Library.Sublist"
begin

section \<open>The functional toolkit of \<^verbatim>\<open>ffffff.h\<close>\<close>

text \<open>
  The header defines function objects over containers (\<^verbatim>\<open>each\<close>, \<^verbatim>\<open>map\<close>,
  \<^verbatim>\<open>filter\<close>, \<^verbatim>\<open>reject\<close>, \<^verbatim>\<open>some\<close>, \<^verbatim>\<open>every\<close>, \<^verbatim>\<open>none\<close>), the policy
  classes and the generic executor \<^verbatim>\<open>Bloop\<close>, the ordered composition \<^verbatim>\<open>Fconcat\<close> /
  \<^verbatim>\<open>MakeConcat\<close> and the memoising wrapper \<^verbatim>\<open>Once\<close>.

  Conventions of the embedding.
  \<^item> A container is given by its elements in iteration order (\<open>begin()\<close> to \<open>end()\<close>),
    a list. Where the result is built through \<^verbatim>\<open>PushPolicy\<close> the class of the container
    matters, and the container carries it (type \<open>container\<close> below).
  \<^item> An exported \<^verbatim>\<open>operator()\<close> takes its container by reference. Its model returns an
    \<open>outcome\<close>: the value handed back and the container argument as the call leaves it.
  \<^item> A callable applied to \<^verbatim>\<open>const\<close> elements (\<^verbatim>\<open>map\<close>, \<^verbatim>\<open>filter\<close>, the quantifiers,
    \<^verbatim>\<open>PushExecution\<close>) is a function of the element. A callable handed a mutable
    element reference (\<^verbatim>\<open>each\<close>, \<^verbatim>\<open>MapExecution\<close>) yields its return value and the
    element as it leaves it. A zero-argument callable
    (\<^verbatim>\<open>once\<close>) and the members of a composition act on a state of the world; the
    former may throw.
\<close>

record ('r, 'c) outcome =
  returned :: 'r
  cont_after :: 'c

subsection \<open>Small operations\<close>

text \<open>\<^verbatim>\<open>IdentityAt<0>\<close>: hands back its first argument itself (a reference to it).\<close>

definition IdentityAt0 :: "'t \<Rightarrow> 'args \<Rightarrow> 't" where
  "IdentityAt0 t args = t"

text \<open>\<^verbatim>\<open>CopyAt<0>\<close>, exported as \<^verbatim>\<open>copy\<close>: a copy of its first argument.\<close>

definition Copy :: "'t \<Rightarrow> 't" where
  "Copy t = t"

text \<open>\<^verbatim>\<open>std::not_fn(func)\<close>: the callable that negates what \<open>func\<close> returns.\<close>

definition not_fn :: "('a \<Rightarrow> bool) \<Rightarrow> 'a \<Rightarrow> bool" where
  "not_fn func v = (\<not> func v)"

text \<open>
  A callable that takes its argument by value or by \<^verbatim>\<open>const\<close> reference, seen as one
  handed a mutable reference: the element stays as it is.
\<close>

definition by_value :: "('a \<Rightarrow> 'r) \<Rightarrow> 'a \<Rightarrow> 'r \<times> 'a" where
  "by_value g v = (g v, v)"

subsection \<open>The memoising wrapper \<^verbatim>\<open>Once\<close>\<close>

text \<open>
  A zero-argument callable acts on the state of the world \<open>'s\<close> (a counter it
  increments, say) and either returns a value (\<open>Inr\<close>) or throws (\<open>Inl\<close>).
\<close>

type_synonym ('s, 'e, 'r) thunk = "'s \<Rightarrow> ('e + 'r) \<times> 's"

text \<open>
  \<^verbatim>\<open>Once_nv<Fn>\<close>: the wrapped callable, the flag and the memo. The constructors set
  \<^verbatim>\<open>flag(false)\<close> and leave \<^verbatim>\<open>memo\<close> default-initialised: \<open>init\<close> is what it holds then
  (the default-constructed value of a class type; for a scalar type C++ fixes no value).
\<close>

record ('s, 'e, 'r) Once_nv =
  fn :: "('s, 'e, 'r) thunk"
  flag :: bool
  memo :: 'r

definition Once_nv_new :: "('s, 'e, 'r) thunk \<Rightarrow> 'r \<Rightarrow> ('s, 'e, 'r) Once_nv" where
  "Once_nv_new g init = \<lparr>fn = g, flag = False, memo = init\<rparr>"

text \<open>
  \<^verbatim>\<open>Once_nv::operator()\<close>. The members are \<^verbatim>\<open>mutable\<close>: the call yields what it
  returns or throws, the wrapper and the world as it leaves them.
  \<^verbatim>\<open>
  if (flag) { return memo; }
  flag = true;
  return memo = f();
  \<close>
\<close>

definition Once_nv_call ::
  "('s, 'e, 'r) Once_nv \<Rightarrow> 's \<Rightarrow> ('e + 'r) \<times> ('s, 'e, 'r) Once_nv \<times> 's" where
  "Once_nv_call w s =
     (if flag w then (Inr (memo w), w, s)
      else
        let w = w\<lparr>flag := True\<rparr>
        in (case fn w s of
              (Inl e, s') \<Rightarrow> (Inl e, w, s')
            | (Inr v, s') \<Rightarrow> (Inr v, w\<lparr>memo := v\<rparr>, s')))"

text \<open>\<^verbatim>\<open>Once_v<Fn>\<close>, for a callable of result type \<^verbatim>\<open>void\<close>: no memo.\<close>

record ('s, 'e) Once_v =
  fn_v :: "('s, 'e, unit) thunk"
  flag_v :: bool

definition Once_v_new :: "('s, 'e, unit) thunk \<Rightarrow> ('s, 'e) Once_v" where
  "Once_v_new g = \<lparr>fn_v = g, flag_v = False\<rparr>"

text \<open>
  \<^verbatim>\<open>Once_v::operator()\<close>:
  \<^verbatim>\<open>
  if (flag) { return; }
  flag = true;
  f();
  \<close>
\<close>

definition Once_v_call ::
  "('s, 'e) Once_v \<Rightarrow> 's \<Rightarrow> ('e + unit) \<times> ('s, 'e) Once_v \<times> 's" where
  "Once_v_call w s =
     (if flag_v w then (Inr (), w, s)
      else
        let w = w\<lparr>flag_v := True\<rparr>
        in (case fn_v w s of
              (Inl e, s') \<Rightarrow> (Inl e, w, s')
            | (Inr u, s') \<Rightarrow> (Inr (), w, s')))"

text \<open>
  \<^verbatim>\<open>Once::operator()\<close> chooses between the two by the result type of the callable
  (\<^verbatim>\<open>if constexpr\<close>); in the embedding the type of the callable chooses the constructor.
  Calling a wrapper \<open>n\<close> times in a row gives the list of what the calls returned or
  threw, the wrapper and the world after the last.
\<close>

fun Once_nv_calls ::
  "nat \<Rightarrow> ('s, 'e, 'r) Once_nv \<Rightarrow> 's \<Rightarrow> ('e + 'r) list \<times> ('s, 'e, 'r) Once_nv \<times> 's" where
  "Once_nv_calls 0 w s = ([], w, s)"
| "Once_nv_calls (Suc n) w s =
     (case Once_nv_call w s of
        (r, w', s') \<Rightarrow> (case Once_nv_calls n w' s' of (rs, w'', s'') \<Rightarrow> (r # rs, w'', s'')))"

fun Once_v_calls ::
  "nat \<Rightarrow> ('s, 'e) Once_v \<Rightarrow> 's \<Rightarrow> ('e + unit) list \<times> ('s, 'e) Once_v \<times> 's" where
  "Once_v_calls 0 w s = ([], w, s)"
| "Once_v_calls (Suc n) w s =
     (case Once_v_call w s of
        (r, w', s') \<Rightarrow> (case Once_v_calls n w' s' of (rs, w'', s'') \<Rightarrow> (r # rs, w'', s'')))"

subsection \<open>The ordered composition \<^verbatim>\<open>Fconcat\<close>\<close>

text \<open>
  A callable is asked with arguments \<open>args\<close>. \<open>None\<close>: it is not invocable with them
  (\<^verbatim>\<open>std::invocable<Fn, Args...>\<close> is false, a call does not compile). \<open>Some k\<close>: it is,
  and invoking it runs \<open>k\<close> on the state of the world.
\<close>

type_synonym ('a, 's, 'r) callable = "'a \<Rightarrow> ('s \<Rightarrow> 'r \<times> 's) option"

definition invocable :: "('a, 's, 'r) callable \<Rightarrow> 'a \<Rightarrow> bool" where
  "invocable g args = (g args \<noteq> None)"

record ('a, 's, 'r) Fconcat =
  f_1 :: "('a, 's, 'r) callable"
  f_2 :: "('a, 's, 'r) callable"

text \<open>
  The two overloads of \<^verbatim>\<open>Fconcat::operator()\<close>: the first requires
  \<^verbatim>\<open>std::invocable<Fn_1, Args...>\<close> and calls \<open>f_1\<close>; the second requires
  \<^verbatim>\<open>not std::invocable<Fn_1, Args...> and std::invocable<Fn_2, Args...>\<close> and calls
  \<open>f_2\<close>. With neither there is no overload to call.
\<close>

definition Fconcat_call :: "('a, 's, 'r) Fconcat \<Rightarrow> ('a, 's, 'r) callable" where
  "Fconcat_call c args =
     (if invocable (f_1 c) args then f_1 c args
      else if \<not> invocable (f_1 c) args \<and> invocable (f_2 c) args then f_2 c args
      else None)"

text \<open>
  \<^verbatim>\<open>MakeConcat::operator()\<close>: with two callables \<^verbatim>\<open>Fconcat(f1, f2)\<close>, with more
  \<^verbatim>\<open>Fconcat(f1, operator()(f2, fp...))\<close>.
\<close>

fun MakeConcat ::
  "('a, 's, 'r) callable \<Rightarrow> ('a, 's, 'r) callable \<Rightarrow> ('a, 's, 'r) callable list
   \<Rightarrow> ('a, 's, 'r) Fconcat" where
  "MakeConcat f1 f2 [] = \<lparr>f_1 = f1, f_2 = f2\<rparr>"
| "MakeConcat f1 f2 (f3 # fp) = \<lparr>f_1 = f1, f_2 = Fconcat_call (MakeConcat f2 f3 fp)\<rparr>"

subsection \<open>Containers\<close>

text \<open>
  \<open>Vector xs\<close>: a sequence container with \<^verbatim>\<open>push_back\<close> (\<^verbatim>\<open>std::vector\<close>, \<^verbatim>\<open>std::deque\<close>).
  \<open>OrdSet lt xs\<close>: a container without \<^verbatim>\<open>push_back\<close> and with \<^verbatim>\<open>insert(val)\<close>, as
  \<^verbatim>\<open>std::set\<close>: \<open>lt\<close> is its comparison object, \<open>xs\<close> its elements in iteration order.
\<close>

datatype 'a container =
    Vector "'a list"
  | OrdSet "'a \<Rightarrow> 'a \<Rightarrow> bool" "'a list"

fun elems :: "'a container \<Rightarrow> 'a list" where
  "elems (Vector xs) = xs"
| "elems (OrdSet lt xs) = xs"

text \<open>
  Modelled from the spec: the capability traits \<^verbatim>\<open>tmf::BackPushable\<close> and
  \<^verbatim>\<open>tmf::Insertable\<close> of \<^verbatim>\<open>us_tmf.h\<close>, which is not among the sources.
  \<open>SupportsBackInsertion(C)\<close>: true iff C exposes an end-append operation;
  \<open>SupportsKeyedInsertion(C)\<close>: true iff C exposes an unordered/keyed insert operation.
\<close>

fun BackPushable :: "'a container \<Rightarrow> bool" where
  "BackPushable (Vector xs) = True"
| "BackPushable (OrdSet lt xs) = False"

fun Insertable :: "'a container \<Rightarrow> bool" where
  "Insertable (Vector xs) = False"
| "Insertable (OrdSet lt xs) = True"

text \<open>
  \<^verbatim>\<open>std::set::insert(val)\<close>: \<open>val\<close> goes before the first element that is not below it,
  unless that element is equivalent to \<open>val\<close>; then nothing is inserted.
\<close>

fun set_insert :: "('a \<Rightarrow> 'a \<Rightarrow> bool) \<Rightarrow> 'a list \<Rightarrow> 'a \<Rightarrow> 'a list" where
  "set_insert lt [] val = [val]"
| "set_insert lt (y # ys) val =
     (if lt y val then y # set_insert lt ys val
      else if lt val y then val # y # ys
      else y # ys)"

text \<open>
  The class invariant of a container: the elements of a \<^verbatim>\<open>std::set\<close> are strictly
  ascending in its comparison. A sequence container has none.
\<close>

fun well_formed :: "'a container \<Rightarrow> bool" where
  "well_formed (Vector xs) = True"
| "well_formed (OrdSet lt xs) = sorted_wrt (\<lambda>x y. lt x y \<and> \<not> lt y x) xs"

subsection \<open>Data-allocation policies\<close>

text \<open>
  \<^verbatim>\<open>PreallocCont\<close>: \<^verbatim>\<open>C<U>(cont.size())\<close>, or \<^verbatim>\<open>std::array<U, N>()\<close>: as many
  value-initialised elements as \<open>cont\<close> has. \<open>dflt\<close> is the value-initialised \<open>U\<close>.
\<close>

definition PreallocCont :: "'u \<Rightarrow> 'a list \<Rightarrow> 'f \<Rightarrow> 'u list" where
  "PreallocCont dflt cont func = replicate (length cont) dflt"

text \<open>\<^verbatim>\<open>NewCont\<close>: \<^verbatim>\<open>Cont()\<close>, an empty container of the class of \<open>cont\<close>.\<close>

fun NewCont :: "'a container \<Rightarrow> 'f \<Rightarrow> 'a container" where
  "NewCont (Vector xs) funcObj = Vector []"
| "NewCont (OrdSet lt xs) funcObj = OrdSet lt []"

subsection \<open>Execution policies\<close>

text \<open>
  \<^verbatim>\<open>MapExecution\<close>, for an output container that is an object of its own. Both
  containers come by mutable reference, so \<open>func\<close> is handed a mutable reference to each
  element of \<open>t_cont\<close> and may alter it: the policy yields \<open>u_cont\<close> and \<open>t_cont\<close> as it
  leaves them. The iterator \<open>it_t\<close> is the part of \<open>t_cont\<close> still to visit (the loop
  yields it as visited), \<open>it_u\<close> a position of \<open>u_cont\<close>.
  \<^verbatim>\<open>
  while (it_t != t_cont.end()) { *it_u = func(*it_t); ++it_t; ++it_u; }
  \<close>
  The loop does not check \<open>it_u\<close> against the end of \<open>u_cont\<close>: writing past it is
  undefined in C++, and the list update of the model leaves the list as it is there. The
  callers below hand in an output of the size of the input (\<^verbatim>\<open>PreallocCont\<close>), so the
  case does not arise in what is proved.
\<close>

fun MapExecution_loop ::
  "('a \<Rightarrow> 'u \<times> 'a) \<Rightarrow> 'a list \<Rightarrow> nat \<Rightarrow> 'u list \<Rightarrow> 'u list \<times> 'a list" where
  "MapExecution_loop func [] it_u u_cont = (u_cont, [])"
| "MapExecution_loop func (t # it_t) it_u u_cont =
     (case func t of
        (r, t') \<Rightarrow>
          (case MapExecution_loop func it_t (Suc it_u) (u_cont[it_u := r]) of
             (u_cont', it_t') \<Rightarrow> (u_cont', t' # it_t')))"

definition MapExecution ::
  "'u list \<Rightarrow> 'a list \<Rightarrow> ('a \<Rightarrow> 'u \<times> 'a) \<Rightarrow> 'u list \<times> 'a list" where
  "MapExecution u_cont t_cont func = MapExecution_loop func t_cont 0 u_cont"

text \<open>
  \<^verbatim>\<open>MapExecution\<close> where \<open>u_cont\<close> and \<open>t_cont\<close> are one object (the output of
  \<^verbatim>\<open>IdentityAt<0>\<close> is the input itself): both iterators are positions of the one
  container. At each, \<open>func\<close> is handed a reference to the element and may alter it, and
  what \<open>func\<close> returns is then assigned to the same element.
\<close>

function MapExecution_self_loop ::
  "('a \<Rightarrow> 'a \<times> 'a) \<Rightarrow> nat \<Rightarrow> 'a list \<Rightarrow> 'a list" where
  "MapExecution_self_loop func it cont =
     (if it < length cont
      then MapExecution_self_loop func (Suc it)
             (cont[it := snd (func (cont ! it)), it := fst (func (cont ! it))])
      else cont)"
  by pat_completeness auto
termination
  by (relation "measure (\<lambda>(func, it, cont). length cont - it)") auto

declare MapExecution_self_loop.simps [simp del]

definition MapExecution_self :: "'a list \<Rightarrow> ('a \<Rightarrow> 'a \<times> 'a) \<Rightarrow> 'a list" where
  "MapExecution_self cont func = MapExecution_self_loop func 0 cont"

text \<open>
  \<^verbatim>\<open>PushExecution::PushPolicy\<close>: the overload for a \<^verbatim>\<open>BackPushable\<close> container calls
  \<^verbatim>\<open>push_back\<close> (first equation), the overload for one that is not and is
  \<^verbatim>\<open>Insertable\<close> calls \<^verbatim>\<open>insert\<close> (second equation).
\<close>

fun PushExecution_PushPolicy :: "'a container \<Rightarrow> 'a \<Rightarrow> 'a container" where
  "PushExecution_PushPolicy (Vector xs) val = Vector (xs @ [val])"
| "PushExecution_PushPolicy (OrdSet lt xs) val = OrdSet lt (set_insert lt xs val)"

text \<open>
  \<^verbatim>\<open>PushExecution\<close>:
  \<^verbatim>\<open>
  for (const auto &t : var_cont) { if (func(t)) { PushPolicy()(res_cont, t); } }
  \<close>
\<close>

fun PushExecution_loop :: "('a \<Rightarrow> bool) \<Rightarrow> 'a list \<Rightarrow> 'a container \<Rightarrow> 'a container" where
  "PushExecution_loop func [] res_cont = res_cont"
| "PushExecution_loop func (t # ts) res_cont =
     PushExecution_loop func ts
       (if func t then PushExecution_PushPolicy res_cont t else res_cont)"

text \<open>
  The policy takes both containers by mutable reference and yields both as it leaves
  them; the loop reads \<open>var_cont\<close> through \<^verbatim>\<open>const auto &t\<close> and writes only \<open>res_cont\<close>.
\<close>

definition PushExecution ::
  "'a container \<Rightarrow> 'a container \<Rightarrow> ('a \<Rightarrow> bool) \<Rightarrow> 'a container \<times> 'a container" where
  "PushExecution res_cont var_cont func =
     (PushExecution_loop func (elems var_cont) res_cont, var_cont)"

subsection \<open>The exported algorithms\<close>

text \<open>
  \<^verbatim>\<open>std::ranges::for_each(cont, func)\<close>: \<open>func\<close> is applied to a reference to each
  element in turn; what it returns is dropped.
\<close>

fun for_each :: "'a list \<Rightarrow> ('a \<Rightarrow> 'r \<times> 'a) \<Rightarrow> 'a list" where
  "for_each [] func = []"
| "for_each (v # vs) func = snd (func v) # for_each vs func"

text \<open>\<^verbatim>\<open>Each::operator()\<close>, of return type \<^verbatim>\<open>void\<close>.\<close>

definition Each :: "'a list \<Rightarrow> ('a \<Rightarrow> 'r \<times> 'a) \<Rightarrow> (unit, 'a list) outcome" where
  "Each cont func = \<lparr>returned = (), cont_after = for_each cont func\<rparr>"

text \<open>
  \<^verbatim>\<open>Map::operator()\<close>, with its own copy of the loop. It takes the container by
  \<^verbatim>\<open>const\<close> reference, so \<open>func\<close> sees \<^verbatim>\<open>const\<close> elements and the container is handed
  back as it came.
\<close>

fun Map_loop :: "('a \<Rightarrow> 'u) \<Rightarrow> 'a list \<Rightarrow> nat \<Rightarrow> 'u list \<Rightarrow> 'u list" where
  "Map_loop func [] it_u ret = ret"
| "Map_loop func (t # it_t) it_u ret = Map_loop func it_t (Suc it_u) (ret[it_u := func t])"

definition Map :: "'u \<Rightarrow> 'a list \<Rightarrow> ('a \<Rightarrow> 'u) \<Rightarrow> ('u list, 'a list) outcome" where
  "Map dflt cont func =
     (let ret = PreallocCont dflt cont func
      in \<lparr>returned = Map_loop func cont 0 ret, cont_after = cont\<rparr>)"

text \<open>
  \<^verbatim>\<open>Filter::PushPolicy\<close> (a second copy of the push policy) and
  \<^verbatim>\<open>Filter::operator()\<close>:
  \<^verbatim>\<open>
  auto ret = NewCont()(cont, elem::copy);
  for (const auto &v : cont) { if (func(v)) { PushPolicy()(ret, v); } }
  return ret;
  \<close>
\<close>

fun Filter_PushPolicy :: "'a container \<Rightarrow> 'a \<Rightarrow> 'a container" where
  "Filter_PushPolicy (Vector xs) val = Vector (xs @ [val])"
| "Filter_PushPolicy (OrdSet lt xs) val = OrdSet lt (set_insert lt xs val)"

fun Filter_loop :: "('a \<Rightarrow> bool) \<Rightarrow> 'a list \<Rightarrow> 'a container \<Rightarrow> 'a container" where
  "Filter_loop func [] ret = ret"
| "Filter_loop func (v # vs) ret =
     Filter_loop func vs (if func v then Filter_PushPolicy ret v else ret)"

definition Filter ::
  "'a container \<Rightarrow> ('a \<Rightarrow> bool) \<Rightarrow> ('a container, 'a container) outcome" where
  "Filter cont func =
     (let ret = NewCont cont (Copy :: 'a \<Rightarrow> 'a)
      in \<lparr>returned = Filter_loop func (elems cont) ret, cont_after = cont\<rparr>)"

text \<open>\<^verbatim>\<open>Reject::operator()\<close>: \<^verbatim>\<open>return Filter()(cont, std::not_fn(func));\<close>\<close>

definition Reject ::
  "'a container \<Rightarrow> ('a \<Rightarrow> bool) \<Rightarrow> ('a container, 'a container) outcome" where
  "Reject cont func = Filter cont (not_fn func)"

text \<open>
  \<^verbatim>\<open>LogicMake<func_ret, ret>::operator()\<close>:
  \<^verbatim>\<open>
  for (auto &v : cont) { if (static_cast<bool>(func(v)) == func_ret) { return ret; } }
  return not ret;
  \<close>
\<close>

fun LogicMake_loop :: "bool \<Rightarrow> bool \<Rightarrow> 'a list \<Rightarrow> ('a \<Rightarrow> bool) \<Rightarrow> bool" where
  "LogicMake_loop func_ret ret [] func = (\<not> ret)"
| "LogicMake_loop func_ret ret (v # vs) func =
     (if func v = func_ret then ret else LogicMake_loop func_ret ret vs func)"

definition LogicMake ::
  "bool \<Rightarrow> bool \<Rightarrow> 'a list \<Rightarrow> ('a \<Rightarrow> bool) \<Rightarrow> (bool, 'a list) outcome" where
  "LogicMake func_ret ret cont func =
     \<lparr>returned = LogicMake_loop func_ret ret cont func, cont_after = cont\<rparr>"

definition some :: "'a list \<Rightarrow> ('a \<Rightarrow> bool) \<Rightarrow> (bool, 'a list) outcome" where
  "some = LogicMake True True"

definition every :: "'a list \<Rightarrow> ('a \<Rightarrow> bool) \<Rightarrow> (bool, 'a list) outcome" where
  "every = LogicMake False False"

definition none :: "'a list \<Rightarrow> ('a \<Rightarrow> bool) \<Rightarrow> (bool, 'a list) outcome" where
  "none = LogicMake True False"

subsection \<open>The generic executor\<close>

text \<open>
  \<^verbatim>\<open>Bloop<ANewDataPolicy, AnExecutionPolicy>::operator()\<close>, for a data policy that
  makes a new object:
  \<^verbatim>\<open>
  decltype(auto) ret = ANewDataPolicy()(cont, func);
  AnExecutionPolicy()(ret, cont, func);
  return ret;
  \<close>
  \<open>cont\<close> comes by mutable reference and goes to the execution policy by mutable
  reference: what the call leaves of it is what the execution policy leaves of it.
\<close>

definition Bloop ::
  "('c \<Rightarrow> 'f \<Rightarrow> 'o) \<Rightarrow> ('o \<Rightarrow> 'c \<Rightarrow> 'f \<Rightarrow> 'o \<times> 'c) \<Rightarrow> 'c \<Rightarrow> 'f \<Rightarrow> ('o, 'c) outcome" where
  "Bloop ANewDataPolicy AnExecutionPolicy cont func =
     (let ret = ANewDataPolicy cont func
      in (case AnExecutionPolicy ret cont func of
            (ret, cont) \<Rightarrow> \<lparr>returned = ret, cont_after = cont\<rparr>))"

definition BloopMap ::
  "'u \<Rightarrow> 'a list \<Rightarrow> ('a \<Rightarrow> 'u \<times> 'a) \<Rightarrow> ('u list, 'a list) outcome" where
  "BloopMap dflt = Bloop (PreallocCont dflt) MapExecution"

definition BloopFilter ::
  "'a container \<Rightarrow> ('a \<Rightarrow> bool) \<Rightarrow> ('a container, 'a container) outcome" where
  "BloopFilter = Bloop NewCont PushExecution"

text \<open>
  \<^verbatim>\<open>BloopEach = Bloop<IdentityAt<0>, MapExecution>\<close>: here \<open>ret\<close> is a reference to
  \<open>cont\<close> itself, the execution writes into \<open>cont\<close>, and \<^verbatim>\<open>return ret\<close> (return type
  \<^verbatim>\<open>auto\<close>) hands back a copy of it.
\<close>

definition BloopEach ::
  "'a list \<Rightarrow> ('a \<Rightarrow> 'a \<times> 'a) \<Rightarrow> ('a list, 'a list) outcome" where
  "BloopEach cont func =
     (let cont = MapExecution_self (IdentityAt0 cont func) func
      in \<lparr>returned = cont, cont_after = cont\<rparr>)"

subsection \<open>Concrete callables\<close>

text \<open>
  The callables of the concrete scenario (multiply by 2, is even), the first also as a
  procedure that doubles the element it is handed in place, and counting callables for
  \<^verbatim>\<open>once\<close> and \<^verbatim>\<open>make_concat\<close>: the world is a counter of invocations.
\<close>

definition multiply_by_2 :: "int \<Rightarrow> int" where
  "multiply_by_2 x = 2 * x"

definition is_even :: "int \<Rightarrow> bool" where
  "is_even x = (x mod 2 = 0)"

definition double_in_place :: "int \<Rightarrow> unit \<times> int" where
  "double_in_place x = ((), 2 * x)"

text \<open>
  One callable with two call operators: handed a \<^verbatim>\<open>const\<close> element it returns it,
  handed a mutable element it doubles it in place and returns the new value.
  \<^verbatim>\<open>
  int operator()(const int &x) const { return x; }
  int operator()(int &x) const { x *= 2; return x; }
  \<close>
\<close>

definition overloaded_const :: "int \<Rightarrow> int" where
  "overloaded_const x = x"

definition overloaded_ref :: "int \<Rightarrow> int \<times> int" where
  "overloaded_ref x = (2 * x, 2 * x)"

definition counting :: "(nat, unit, nat) thunk" where
  "counting n = (Inr (10 * n + 7), Suc n)"

definition void_counting :: "(nat, unit, unit) thunk" where
  "void_counting n = (Inr (), Suc n)"

definition failing_counter :: "(nat, unit, nat) thunk" where
  "failing_counter n = (Inl (), Suc n)"

definition void_failing_counter :: "(nat, unit, unit) thunk" where
  "void_failing_counter n = (Inl (), Suc n)"

definition plus_one :: "(int, nat, int) callable" where
  "plus_one x = Some (\<lambda>n. (x + 1, n))"

definition counted_double :: "(int, nat, int) callable" where
  "counted_double x = Some (\<lambda>n. (2 * x, Suc n))"

definition rejecting :: "(int, nat, int) callable" where
  "rejecting x = None"

section \<open>Properties\<close>

subsection \<open>The loops\<close>

lemma Map_loop_eq:
  "it_u + length ts \<le> length ret \<Longrightarrow>
   Map_loop func ts it_u ret = take it_u ret @ map func ts @ drop (it_u + length ts) ret"
proof (induction ts arbitrary: it_u ret)
  case Nil
  then show ?case by simp
next
  case (Cons t ts)
  then have "Map_loop func ts (Suc it_u) (ret[it_u := func t]) =
     take (Suc it_u) (ret[it_u := func t]) @ map func ts @
     drop (Suc it_u + length ts) (ret[it_u := func t])"
    by simp
  moreover have "take (Suc it_u) (ret[it_u := func t]) = take it_u ret @ [func t]"
    using Cons.prems by (simp add: take_Suc_conv_app_nth)
  ultimately show ?case by simp
qed

lemma Map_returned: "returned (Map dflt cont func) = map func cont"
  by (simp add: Map_def PreallocCont_def Map_loop_eq)

lemma MapExecution_loop_by_value:
  "MapExecution_loop (by_value func) ts it_u ret = (Map_loop func ts it_u ret, ts)"
  by (induction ts arbitrary: it_u ret) (simp_all add: by_value_def)

lemma Map_BloopMap: "Map dflt c f = BloopMap dflt c (by_value f)"
  by (simp add: Map_def BloopMap_def Bloop_def MapExecution_def PreallocCont_def
      MapExecution_loop_by_value)

lemma MapExecution_loop_eq:
  "it_u + length ts \<le> length u_cont \<Longrightarrow>
   MapExecution_loop func ts it_u u_cont =
     (take it_u u_cont @ map (\<lambda>t. fst (func t)) ts @ drop (it_u + length ts) u_cont,
      map (\<lambda>t. snd (func t)) ts)"
proof (induction ts arbitrary: it_u u_cont)
  case Nil
  then show ?case by simp
next
  case (Cons t ts)
  obtain r t' where ft: "func t = (r, t')" by (cases "func t")
  from Cons.prems have "MapExecution_loop func ts (Suc it_u) (u_cont[it_u := r]) =
     (take (Suc it_u) (u_cont[it_u := r]) @ map (\<lambda>t. fst (func t)) ts @
        drop (Suc it_u + length ts) (u_cont[it_u := r]),
      map (\<lambda>t. snd (func t)) ts)"
    by (intro Cons.IH) simp
  moreover have "take (Suc it_u) (u_cont[it_u := r]) = take it_u u_cont @ [r]"
    using Cons.prems by (simp add: take_Suc_conv_app_nth)
  ultimately show ?case by (simp add: ft)
qed

lemma BloopMap_eq:
  "BloopMap dflt c func =
     \<lparr>returned = map (\<lambda>t. fst (func t)) c, cont_after = map (\<lambda>t. snd (func t)) c\<rparr>"
  by (simp add: BloopMap_def Bloop_def MapExecution_def PreallocCont_def MapExecution_loop_eq)

lemma MapExecution_self_loop_eq:
  "it \<le> length cont \<Longrightarrow>
   MapExecution_self_loop func it cont =
     take it cont @ map (\<lambda>t. fst (func t)) (drop it cont)"
proof (induction func it cont rule: MapExecution_self_loop.induct)
  case (1 func it cont)
  show ?case
  proof (cases "it < length cont")
    case True
    let ?r = "fst (func (cont ! it))"
    let ?c = "cont[it := snd (func (cont ! it)), it := ?r]"
    have same: "?c = cont[it := ?r]" by simp
    have "MapExecution_self_loop func it cont = MapExecution_self_loop func (Suc it) ?c"
      using True by (subst MapExecution_self_loop.simps) simp
    also have "\<dots> = take (Suc it) ?c @ map (\<lambda>t. fst (func t)) (drop (Suc it) ?c)"
      using True by (intro "1.IH") simp_all
    also have "\<dots> = take (Suc it) (cont[it := ?r]) @
        map (\<lambda>t. fst (func t)) (drop (Suc it) (cont[it := ?r]))"
      by (simp only: same)
    also have "\<dots> = take it cont @ [?r] @ map (\<lambda>t. fst (func t)) (drop (Suc it) cont)"
      using True by (simp add: take_Suc_conv_app_nth)
    also have "\<dots> = take it cont @ map (\<lambda>t. fst (func t)) (drop it cont)"
      using True by (simp add: Cons_nth_drop_Suc [symmetric])
    finally show ?thesis .
  next
    case False
    with "1.prems" have "it = length cont" by simp
    then show ?thesis by (subst MapExecution_self_loop.simps) simp
  qed
qed

lemma BloopEach_eq:
  "BloopEach cont func =
     \<lparr>returned = map (\<lambda>t. fst (func t)) cont, cont_after = map (\<lambda>t. fst (func t)) cont\<rparr>"
  by (simp add: BloopEach_def MapExecution_self_def IdentityAt0_def
      MapExecution_self_loop_eq Let_def)

lemma for_each_eq: "for_each cont func = map (\<lambda>v. snd (func v)) cont"
  by (induction cont) simp_all

lemma set_insert_set: "set (set_insert lt xs v) \<subseteq> insert v (set xs)"
  by (induction xs) auto

lemma set_insert_append:
  "\<forall>y \<in> set xs. lt y v \<Longrightarrow> set_insert lt xs v = xs @ [v]"
  by (induction xs) simp_all

lemma Filter_loop_Vector:
  "Filter_loop func vs (Vector acc) = Vector (acc @ filter func vs)"
  by (induction vs arbitrary: acc) simp_all

lemma Filter_loop_OrdSet:
  "sorted_wrt (\<lambda>x y. lt x y \<and> \<not> lt y x) (acc @ vs) \<Longrightarrow>
   Filter_loop func vs (OrdSet lt acc) = OrdSet lt (acc @ filter func vs)"
proof (induction vs arbitrary: acc)
  case Nil
  then show ?case by simp
next
  case (Cons v vs)
  show ?case
  proof (cases "func v")
    case True
    from Cons.prems have below: "\<forall>y \<in> set acc. lt y v"
      by (simp add: sorted_wrt_append)
    from Cons.prems have "sorted_wrt (\<lambda>x y. lt x y \<and> \<not> lt y x) ((acc @ [v]) @ vs)"
      by (auto simp add: sorted_wrt_append)
    then have "Filter_loop func vs (OrdSet lt (acc @ [v])) =
        OrdSet lt ((acc @ [v]) @ filter func vs)"
      by (rule Cons.IH)
    with True below show ?thesis
      by (simp add: set_insert_append)
  next
    case False
    from Cons.prems have "sorted_wrt (\<lambda>x y. lt x y \<and> \<not> lt y x) (acc @ vs)"
      by (simp add: sorted_wrt_append)
    then have "Filter_loop func vs (OrdSet lt acc) = OrdSet lt (acc @ filter func vs)"
      by (rule Cons.IH)
    with False show ?thesis by simp
  qed
qed

lemma Filter_elems:
  "well_formed c \<Longrightarrow> elems (returned (Filter c p)) = filter p (elems c)"
  by (cases c) (simp_all add: Filter_def Filter_loop_Vector Filter_loop_OrdSet)

lemma Filter_loop_set:
  "set (elems (Filter_loop func vs ret)) \<subseteq> set (elems ret) \<union> {v \<in> set vs. func v}"
proof (induction vs arbitrary: ret)
  case Nil
  then show ?case by simp
next
  case (Cons v vs)
  have push: "set (elems (Filter_PushPolicy ret v)) \<subseteq> insert v (set (elems ret))"
  proof (cases ret)
    case (Vector xs)
    then show ?thesis by auto
  next
    case (OrdSet lt xs)
    then show ?thesis using set_insert_set [of lt xs v] by simp
  qed
  show ?case
    using Cons.IH [of "if func v then Filter_PushPolicy ret v else ret"] push
    by (auto split: if_splits)
qed

lemma Filter_set: "set (elems (returned (Filter c p))) \<subseteq> {v \<in> set (elems c). p v}"
  using Filter_loop_set [of p "elems c" "NewCont c (Copy :: 'a \<Rightarrow> 'a)"]
  by (cases c) (auto simp add: Filter_def)

lemma Filter_PushPolicy_eq: "Filter_PushPolicy ret v = PushExecution_PushPolicy ret v"
  by (cases ret) simp_all

lemma Filter_loop_PushExecution_loop:
  "Filter_loop func vs ret = PushExecution_loop func vs ret"
  by (induction vs arbitrary: ret) (simp_all add: Filter_PushPolicy_eq)

lemma Filter_BloopFilter: "Filter k p = BloopFilter k p"
  by (cases k)
    (simp_all add: Filter_def BloopFilter_def Bloop_def PushExecution_def
      Filter_loop_PushExecution_loop)

lemma Reject_elems:
  "well_formed c \<Longrightarrow> elems (returned (Reject c p)) = filter (\<lambda>v. \<not> p v) (elems c)"
  by (simp add: Reject_def Filter_elems not_fn_def [abs_def])

lemma LogicMake_loop_eq:
  "LogicMake_loop func_ret ret cont func =
     (if \<exists>v \<in> set cont. func v = func_ret then ret else \<not> ret)"
  by (induction cont) auto

subsection \<open>The wrapper \<^verbatim>\<open>Once\<close>\<close>

lemma Once_nv_call_cached:
  "flag w \<Longrightarrow> Once_nv_call w s = (Inr (memo w), w, s)"
  by (simp add: Once_nv_call_def)

lemma Once_nv_call_first_returns:
  "\<not> flag w \<Longrightarrow> fn w s = (Inr v, s') \<Longrightarrow>
   Once_nv_call w s = (Inr v, w\<lparr>flag := True, memo := v\<rparr>, s')"
  by (simp add: Once_nv_call_def)

lemma Once_nv_call_first_throws:
  "\<not> flag w \<Longrightarrow> fn w s = (Inl e, s') \<Longrightarrow>
   Once_nv_call w s = (Inl e, w\<lparr>flag := True\<rparr>, s')"
  by (simp add: Once_nv_call_def)

lemma Once_nv_calls_cached:
  "flag w \<Longrightarrow> Once_nv_calls n w s = (replicate n (Inr (memo w)), w, s)"
  by (induction n) (simp_all add: Once_nv_call_cached)

lemma Once_v_call_cached:
  "flag_v w \<Longrightarrow> Once_v_call w s = (Inr (), w, s)"
  by (simp add: Once_v_call_def)

lemma Once_v_call_first:
  "\<not> flag_v w \<Longrightarrow>
   Once_v_call w s = (fst (fn_v w s), w\<lparr>flag_v := True\<rparr>, snd (fn_v w s))"
  by (cases "fn_v w s") (auto simp add: Once_v_call_def Let_def split: sum.splits)

lemma Once_v_calls_cached:
  "flag_v w \<Longrightarrow> Once_v_calls n w s = (replicate n (Inr ()), w, s)"
  by (induction n) (simp_all add: Once_v_call_cached)

lemma Once_nv_calls_returns:
  assumes "g s = (Inr v, s')"
  shows "Once_nv_calls (Suc n) (Once_nv_new g init) s =
    (replicate (Suc n) (Inr v), \<lparr>fn = g, flag = True, memo = v\<rparr>, s')"
  using assms
  by (simp add: Once_nv_new_def Once_nv_call_first_returns Once_nv_calls_cached)

lemma Once_nv_calls_throws:
  assumes "g s = (Inl e, s')"
  shows "Once_nv_calls (Suc n) (Once_nv_new g init) s =
    (Inl e # replicate n (Inr init), \<lparr>fn = g, flag = True, memo = init\<rparr>, s')"
  using assms
  by (simp add: Once_nv_new_def Once_nv_call_first_throws Once_nv_calls_cached)

lemma Once_v_calls_first:
  "Once_v_calls (Suc n) (Once_v_new h) s =
    (fst (h s) # replicate n (Inr ()), \<lparr>fn_v = h, flag_v = True\<rparr>, snd (h s))"
  by (simp add: Once_v_new_def Once_v_call_first Once_v_calls_cached)

lemma Once_nv_calls_world:
  "snd (snd (Once_nv_calls (Suc n) (Once_nv_new g init) s)) = snd (g s)"
proof (cases "g s")
  case (Pair r s')
  then show ?thesis
    by (cases r)
      (simp_all add: Once_nv_calls_returns Once_nv_calls_throws del: Once_nv_calls.simps)
qed

subsection \<open>The composition \<^verbatim>\<open>Fconcat\<close>\<close>

lemma Fconcat_call_first:
  "invocable f1 x \<Longrightarrow> Fconcat_call \<lparr>f_1 = f1, f_2 = f2\<rparr> x = f1 x"
  by (simp add: Fconcat_call_def)

lemma Fconcat_call_second:
  "\<not> invocable f1 x \<Longrightarrow> Fconcat_call \<lparr>f_1 = f1, f_2 = f2\<rparr> x = f2 x"
  by (simp add: Fconcat_call_def invocable_def)

lemma MakeConcat_first_match:
  "Fconcat_call (MakeConcat f1 f2 fp) x =
     (case find (\<lambda>g. invocable g x) (f1 # f2 # fp) of None \<Rightarrow> None | Some g \<Rightarrow> g x)"
proof (induction fp arbitrary: f1 f2)
  case Nil
  show ?case
    by (cases "invocable f1 x"; cases "invocable f2 x")
      (simp_all add: Fconcat_call_first Fconcat_call_second, simp add: invocable_def)
next
  case (Cons f3 fp)
  show ?case
  proof (cases "invocable f1 x")
    case True
    then show ?thesis by (simp add: Fconcat_call_first)
  next
    case False
    then show ?thesis using Cons.IH [of f2 f3] by (simp add: Fconcat_call_second)
  qed
qed

section \<open>The claims\<close>

subsection \<open>C1: a callable that throws under \<^verbatim>\<open>once\<close>\<close>

text \<open>
  C1, as the code has it. When the first call of the wrapped callable throws, the
  exception reaches the caller, and the flag is set all the same: \<^verbatim>\<open>flag = true\<close>
  stands before the call of \<open>f\<close>, and nothing resets it. The next call of the wrapper
  does not invoke the callable again: it leaves the world as the failed call left it, and
  the wrapper as well. This holds of \<^verbatim>\<open>Once_nv\<close> and of \<^verbatim>\<open>Once_v\<close>.
\<close>

theorem once_failure_sets_flag:
  "(fst (g s) = Inl e \<longrightarrow>
      fst (Once_nv_call (Once_nv_new g init) s) = Inl e \<and>
      flag (fst (snd (Once_nv_call (Once_nv_new g init) s))) = True \<and>
      snd (snd (Once_nv_call (Once_nv_new g init) s)) = snd (g s) \<and>
      snd (Once_nv_call (fst (snd (Once_nv_call (Once_nv_new g init) s))) (snd (g s))) =
        (fst (snd (Once_nv_call (Once_nv_new g init) s)), snd (g s))) \<and>
   (fst (h s) = Inl e \<longrightarrow>
      fst (Once_v_call (Once_v_new h) s) = Inl e \<and>
      flag_v (fst (snd (Once_v_call (Once_v_new h) s))) = True \<and>
      snd (snd (Once_v_call (Once_v_new h) s)) = snd (h s) \<and>
      snd (Once_v_call (fst (snd (Once_v_call (Once_v_new h) s))) (snd (h s))) =
        (fst (snd (Once_v_call (Once_v_new h) s)), snd (h s)))"
proof -
  have "fst (Once_nv_call (Once_nv_new g init) s) = Inl e \<and>
      flag (fst (snd (Once_nv_call (Once_nv_new g init) s))) = True \<and>
      snd (snd (Once_nv_call (Once_nv_new g init) s)) = snd (g s) \<and>
      snd (Once_nv_call (fst (snd (Once_nv_call (Once_nv_new g init) s))) (snd (g s))) =
        (fst (snd (Once_nv_call (Once_nv_new g init) s)), snd (g s))"
    if "fst (g s) = Inl e"
  proof -
    from that have "g s = (Inl e, snd (g s))" by (cases "g s") simp
    then have "Once_nv_call (Once_nv_new g init) s =
        (Inl e, \<lparr>fn = g, flag = True, memo = init\<rparr>, snd (g s))"
      by (simp add: Once_nv_new_def Once_nv_call_first_throws)
    then show ?thesis by (simp add: Once_nv_call_cached)
  qed
  moreover have "fst (Once_v_call (Once_v_new h) s) = Inl e \<and>
      flag_v (fst (snd (Once_v_call (Once_v_new h) s))) = True \<and>
      snd (snd (Once_v_call (Once_v_new h) s)) = snd (h s) \<and>
      snd (Once_v_call (fst (snd (Once_v_call (Once_v_new h) s))) (snd (h s))) =
        (fst (snd (Once_v_call (Once_v_new h) s)), snd (h s))"
    if "fst (h s) = Inl e"
  proof -
    have "Once_v_call (Once_v_new h) s =
        (fst (h s), \<lparr>fn_v = h, flag_v = True\<rparr>, snd (h s))"
      by (simp add: Once_v_new_def Once_v_call_first)
    with that show ?thesis by (simp add: Once_v_call_cached)
  qed
  ultimately show ?thesis by blast
qed

theorem once_failure_sets_flag_witness:
  "fst (Once_nv_call (Once_nv_new failing_counter 0) 0) = Inl () \<and>
   flag (fst (snd (Once_nv_call (Once_nv_new failing_counter 0) 0))) = True \<and>
   snd (snd (Once_nv_call (Once_nv_new failing_counter 0) 0)) = 1 \<and>
   snd (snd (Once_nv_call (fst (snd (Once_nv_call (Once_nv_new failing_counter 0) 0))) 1)) = 1 \<and>
   fst (Once_v_call (Once_v_new void_failing_counter) 0) = Inl () \<and>
   flag_v (fst (snd (Once_v_call (Once_v_new void_failing_counter) 0))) = True \<and>
   snd (snd (Once_v_call (fst (snd (Once_v_call (Once_v_new void_failing_counter) 0))) 1)) = 1"
  using once_failure_sets_flag [of failing_counter 0 "()" 0 void_failing_counter]
  by (simp add: failing_counter_def void_failing_counter_def)

text \<open>
  C1 as stated fails. The callable \<open>failing_counter\<close> counts its invocations and
  throws. The first call of the wrapper throws; after it the flag is set, not unset;
  two calls of the wrapper leave the counter at 1, where a second invocation of the
  callable would leave it at 2.
\<close>

theorem once_retry_counterexample:
  "fst (Once_nv_call (Once_nv_new failing_counter 0) 0) = Inl () \<and>
   flag (fst (snd (Once_nv_call (Once_nv_new failing_counter 0) 0))) = True \<and>
   snd (snd (Once_nv_calls 2 (Once_nv_new failing_counter 0) 0)) = 1 \<and>
   snd (failing_counter (snd (failing_counter 0))) = 2"
  by (simp add: numeral_2_eq_2 Once_nv_new_def Once_nv_call_def failing_counter_def)

subsection \<open>C2: \<^verbatim>\<open>each\<close>\<close>

text \<open>
  C2, as the code has it. \<^verbatim>\<open>each(c, f)\<close> returns nothing (its return type is
  \<^verbatim>\<open>void\<close>). It hands \<open>f\<close> a reference to each element in turn: afterwards \<open>c\<close> has
  its length, and at every index the element is as \<open>f\<close> left it. What \<open>f\<close> returns is
  dropped.
\<close>

theorem Each_in_place:
  "returned (Each c f) = () \<and>
   length (cont_after (Each c f)) = length c \<and>
   (\<forall>i < length c. cont_after (Each c f) ! i = snd (f (c ! i)))"
  by (simp add: Each_def for_each_eq)

theorem Each_in_place_witness:
  "length (cont_after (Each [1, 2, 3, 4] double_in_place)) = 4 \<and>
   cont_after (Each [1, 2, 3, 4] double_in_place) ! 0 = 2 \<and>
   cont_after (Each [1, 2, 3, 4] double_in_place) ! 3 = 8"
  using Each_in_place [of "[1, 2, 3, 4]" double_in_place]
  by (simp add: double_in_place_def)

text \<open>
  C2 as stated fails: with the callable that returns twice its argument, taken by
  value, the result of applying it at position 0 is 2, and \<^verbatim>\<open>each\<close> leaves 1 there
  (it leaves the whole container as it was).
\<close>

theorem Each_counterexample:
  "cont_after (Each [1, 2, 3, 4] (by_value multiply_by_2)) ! 0 = 1 \<and>
   fst (by_value multiply_by_2 ([1, 2, 3, 4] ! 0)) = 2 \<and>
   cont_after (Each [1, 2, 3, 4] (by_value multiply_by_2)) = [1, 2, 3, 4]"
  by (simp add: Each_def by_value_def multiply_by_2_def)

subsection \<open>C3: the exported algorithms and \<^verbatim>\<open>Bloop\<close>\<close>

text \<open>
  C3, as the code has it. \<^verbatim>\<open>map\<close> and \<^verbatim>\<open>filter\<close> are loops of their own. For a
  callable \<open>f\<close> that takes its argument by value or by \<^verbatim>\<open>const\<close> reference (handed a
  mutable element it returns the same and leaves the element alone), \<^verbatim>\<open>map(c, f)\<close>
  equals \<^verbatim>\<open>Bloop<PreallocCont, MapExecution>(c, f)\<close>, and for every predicate \<open>p\<close>,
  \<^verbatim>\<open>filter(c, p)\<close> equals \<^verbatim>\<open>Bloop<NewCont, PushExecution>(c, p)\<close>: in what they return
  and in what they leave of the input.
\<close>

theorem map_filter_are_Bloop:
  "Map dflt c f = BloopMap dflt c (by_value f) \<and> Filter k p = BloopFilter k p"
  by (simp add: Map_BloopMap Filter_BloopFilter)

theorem map_filter_are_Bloop_witness:
  "BloopMap 0 [1, 2, 3, 4] (by_value multiply_by_2) =
     \<lparr>returned = [2, 4, 6, 8], cont_after = [1, 2, 3, 4]\<rparr> \<and>
   BloopFilter (Vector [1, 2, 3, 4]) is_even =
     \<lparr>returned = Vector [2, 4], cont_after = Vector [1, 2, 3, 4]\<rparr>"
proof -
  have "Map 0 [1, 2, 3, 4] multiply_by_2 = BloopMap 0 [1, 2, 3, 4] (by_value multiply_by_2)"
    and "Filter (Vector [1, 2, 3, 4]) is_even = BloopFilter (Vector [1, 2, 3, 4]) is_even"
    using map_filter_are_Bloop [of 0 "[1, 2, 3, 4]" multiply_by_2 "Vector [1, 2, 3, 4]" is_even]
    by simp_all
  then have "BloopMap 0 [1, 2, 3, 4] (by_value multiply_by_2) = Map 0 [1, 2, 3, 4] multiply_by_2"
    and "BloopFilter (Vector [1, 2, 3, 4]) is_even = Filter (Vector [1, 2, 3, 4]) is_even"
    by simp_all
  then show ?thesis
    by (simp add: Map_def PreallocCont_def Filter_def multiply_by_2_def is_even_def)
qed

text \<open>
  C3 as stated fails, twice. \<^verbatim>\<open>map\<close> hands the callable \<^verbatim>\<open>const\<close> elements and the
  executor hands it mutable ones: for the callable with the two call operators
  \<open>overloaded_const\<close> and \<open>overloaded_ref\<close>, \<^verbatim>\<open>map\<close> returns the elements and leaves
  the container, and \<^verbatim>\<open>Bloop<PreallocCont, MapExecution>\<close> returns them doubled and
  leaves them doubled in the container. And \<^verbatim>\<open>each\<close> is a loop of its own
  (\<^verbatim>\<open>std::ranges::for_each\<close>) that differs from the instantiation the header names
  \<^verbatim>\<open>BloopEach\<close>: with the doubling callable \<^verbatim>\<open>each\<close> returns nothing and leaves the
  container as it was; \<^verbatim>\<open>BloopEach\<close> assigns the results and returns a container.
\<close>

theorem map_each_differ_from_Bloop:
  "Map 0 [1, 2, 3, 4] overloaded_const =
     \<lparr>returned = [1, 2, 3, 4], cont_after = [1, 2, 3, 4]\<rparr> \<and>
   BloopMap 0 [1, 2, 3, 4] overloaded_ref =
     \<lparr>returned = [2, 4, 6, 8], cont_after = [2, 4, 6, 8]\<rparr> \<and>
   Each [1, 2, 3, 4] (by_value multiply_by_2) =
     \<lparr>returned = (), cont_after = [1, 2, 3, 4]\<rparr> \<and>
   BloopEach [1, 2, 3, 4] (by_value multiply_by_2) =
     \<lparr>returned = [2, 4, 6, 8], cont_after = [2, 4, 6, 8]\<rparr>"
  by (simp add: Map_def PreallocCont_def BloopMap_eq Each_def BloopEach_eq by_value_def
      multiply_by_2_def overloaded_const_def overloaded_ref_def)

subsection \<open>C4: \<^verbatim>\<open>map\<close>\<close>

text \<open>
  C4. For every container \<open>c\<close> and function \<open>f\<close>, \<^verbatim>\<open>map(c, f)\<close> returns a container
  of the length of \<open>c\<close>, and at every index \<open>i\<close> it holds \<open>f (c[i])\<close>.
\<close>

theorem Map_length_order:
  "length (returned (Map dflt c f)) = length c \<and>
   (\<forall>i < length c. returned (Map dflt c f) ! i = f (c ! i))"
  by (simp add: Map_returned)

theorem Map_length_order_witness:
  "length (returned (Map 0 [1, 2, 3, 4] multiply_by_2)) = 4 \<and>
   returned (Map 0 [1, 2, 3, 4] multiply_by_2) ! 0 = 2 \<and>
   returned (Map 0 [1, 2, 3, 4] multiply_by_2) ! 1 = 4 \<and>
   returned (Map 0 [1, 2, 3, 4] multiply_by_2) ! 2 = 6 \<and>
   returned (Map 0 [1, 2, 3, 4] multiply_by_2) ! 3 = 8"
  using Map_length_order [of 0 "[1, 2, 3, 4]" multiply_by_2]
  by (simp add: multiply_by_2_def)

subsection \<open>C5: \<^verbatim>\<open>filter\<close>\<close>

text \<open>
  C5. For every container \<open>c\<close> and predicate \<open>p\<close>: every element of \<^verbatim>\<open>filter(c, p)\<close>
  satisfies \<open>p\<close>; no element of \<open>c\<close> that fails \<open>p\<close> is in it; and where the container
  has \<^verbatim>\<open>push_back\<close> its elements are those of \<open>c\<close> that satisfy \<open>p\<close>, in the order of
  \<open>c\<close>. The same holds of every container that satisfies its class invariant, a set
  too.
\<close>

theorem Filter_subsequence:
  "(\<forall>v \<in> set (elems (returned (Filter c p))). p v) \<and>
   (\<forall>v \<in> set (elems c). \<not> p v \<longrightarrow> v \<notin> set (elems (returned (Filter c p)))) \<and>
   (BackPushable c \<longrightarrow>
      elems (returned (Filter c p)) = filter p (elems c) \<and>
      subseq (elems (returned (Filter c p))) (elems c)) \<and>
   (well_formed c \<longrightarrow>
      elems (returned (Filter c p)) = filter p (elems c) \<and>
      subseq (elems (returned (Filter c p))) (elems c))"
proof -
  have "BackPushable c \<Longrightarrow> well_formed c"
    by (cases c) simp_all
  then show ?thesis
    using Filter_set [of c p] by (auto simp add: Filter_elems)
qed

theorem Filter_subsequence_witness:
  "elems (returned (Filter (Vector [1, 2, 3, 4]) is_even)) = [2, 4] \<and>
   is_even 2 \<and> is_even 4 \<and> \<not> is_even 1 \<and>
   1 \<notin> set (elems (returned (Filter (Vector [1, 2, 3, 4]) is_even))) \<and>
   elems (returned (Filter (OrdSet (<) [1, 2, 3, 4]) is_even)) = [2, 4]"
  using Filter_subsequence [of "Vector [1, 2, 3, 4]" is_even]
    Filter_subsequence [of "OrdSet (<) [1, 2, 3, 4]" is_even]
  by (simp add: is_even_def)

subsection \<open>C6: the quantifiers\<close>

text \<open>
  C6. \<^verbatim>\<open>some(c, p)\<close> is true iff an element of \<open>c\<close> satisfies \<open>p\<close>, \<^verbatim>\<open>every(c, p)\<close>
  iff all do, and \<^verbatim>\<open>none(c, p)\<close> is the negation of \<^verbatim>\<open>some(c, p)\<close>. On the empty
  container \<^verbatim>\<open>some\<close> is false, \<^verbatim>\<open>every\<close> is true and \<^verbatim>\<open>none\<close> is true.
\<close>

theorem quantifiers_correct:
  "returned (some c p) = (\<exists>v \<in> set c. p v) \<and>
   returned (every c p) = (\<forall>v \<in> set c. p v) \<and>
   returned (none c p) = (\<not> returned (some c p)) \<and>
   returned (some [] p) = False \<and>
   returned (every [] p) = True \<and>
   returned (none [] p) = True"
  by (auto simp add: some_def every_def none_def LogicMake_def LogicMake_loop_eq)

theorem quantifiers_correct_witness:
  "returned (some [1, 2, 3, 4] is_even) = True \<and>
   returned (every [1, 2, 3, 4] is_even) = False \<and>
   returned (none [1, 2, 3, 4] is_even) = False \<and>
   returned (every [2, 4] is_even) = True \<and>
   returned (none [1, 3] is_even) = True"
  using quantifiers_correct [of "[1, 2, 3, 4]" is_even]
    quantifiers_correct [of "[2, 4]" is_even] quantifiers_correct [of "[1, 3]" is_even]
  by (simp add: is_even_def)

subsection \<open>C7: the order of a composition\<close>

text \<open>
  C7. When both callables of \<^verbatim>\<open>make_concat(f1, f2)\<close> accept the arguments \<open>x\<close>, the
  call is the call of \<open>f1\<close>: it is \<open>f1\<close>'s computation whatever the second callable is,
  so the second is not invoked. In a longer composition the first callable, from the
  left, that accepts the arguments is the one invoked.
\<close>

theorem Fconcat_first_match:
  "(invocable f1 x \<and> invocable f2 x \<longrightarrow>
      Fconcat_call (MakeConcat f1 f2 []) x = f1 x \<and>
      Fconcat_call (MakeConcat f1 f2' []) x = f1 x) \<and>
   Fconcat_call (MakeConcat f1 f2 fp) x =
     (case find (\<lambda>g. invocable g x) (f1 # f2 # fp) of None \<Rightarrow> None | Some g \<Rightarrow> g x)"
  using MakeConcat_first_match [of f1 f2 fp x] by (simp add: Fconcat_call_first)

theorem Fconcat_first_match_witness:
  "invocable plus_one 5 \<and> invocable counted_double 5 \<and>
   Fconcat_call (MakeConcat plus_one counted_double []) 5 = plus_one 5 \<and>
   map_option (\<lambda>k. k 0) (Fconcat_call (MakeConcat plus_one counted_double []) 5) =
     Some (6, 0) \<and>
   map_option (\<lambda>k. k 0) (Fconcat_call (MakeConcat rejecting counted_double [plus_one]) 5) =
     Some (10, 1)"
  using Fconcat_first_match [of plus_one 5 counted_double counted_double "[]"]
    Fconcat_first_match [of rejecting 5 counted_double counted_double "[plus_one]"]
  by (simp add: invocable_def plus_one_def counted_double_def rejecting_def)

subsection \<open>C8: three calls of a \<^verbatim>\<open>once\<close> wrapper\<close>

text \<open>
  C8. Three calls of \<^verbatim>\<open>w = once(f)\<close> leave the world as one invocation of \<open>f\<close>
  leaves it (a counter that \<open>f\<close> increments has gone up by one), and when that
  invocation returns \<open>v\<close> all three calls return \<open>v\<close>. The same holds of a callable
  of result type \<^verbatim>\<open>void\<close>.
\<close>

theorem once_three_calls:
  "snd (snd (Once_nv_calls 3 (Once_nv_new g init) s)) = snd (g s) \<and>
   (fst (g s) = Inr v \<longrightarrow>
      fst (Once_nv_calls 3 (Once_nv_new g init) s) = [Inr v, Inr v, Inr v]) \<and>
   snd (snd (Once_v_calls 3 (Once_v_new h) s)) = snd (h s) \<and>
   (fst (h s) = Inr () \<longrightarrow>
      fst (Once_v_calls 3 (Once_v_new h) s) = [Inr (), Inr (), Inr ()])"
proof -
  have three: "(3::nat) = Suc 2" by simp
  have "snd (snd (Once_nv_calls 3 (Once_nv_new g init) s)) = snd (g s)"
    unfolding three by (rule Once_nv_calls_world)
  moreover have "fst (Once_nv_calls 3 (Once_nv_new g init) s) = [Inr v, Inr v, Inr v]"
    if "fst (g s) = Inr v"
  proof -
    from that have "g s = (Inr v, snd (g s))" by (cases "g s") simp
    then show ?thesis
      unfolding three
      by (simp add: Once_nv_calls_returns numeral_2_eq_2 del: Once_nv_calls.simps)
  qed
  moreover have "snd (snd (Once_v_calls 3 (Once_v_new h) s)) = snd (h s)"
    unfolding three by (simp only: Once_v_calls_first snd_conv)
  moreover have "fst (Once_v_calls 3 (Once_v_new h) s) = [Inr (), Inr (), Inr ()]"
    if "fst (h s) = Inr ()"
    unfolding three
    by (simp only: Once_v_calls_first fst_conv that) (simp add: numeral_2_eq_2)
  ultimately show ?thesis by blast
qed

theorem once_three_calls_witness:
  "snd (snd (Once_nv_calls 3 (Once_nv_new counting 0) 0)) = 1 \<and>
   fst (Once_nv_calls 3 (Once_nv_new counting 0) 0) = [Inr 7, Inr 7, Inr 7] \<and>
   snd (snd (Once_v_calls 3 (Once_v_new void_counting) 0)) = 1 \<and>
   fst (Once_v_calls 3 (Once_v_new void_counting) 0) = [Inr (), Inr (), Inr ()]"
  using once_three_calls [of counting 0 0 7 void_counting]
  by (simp add: counting_def void_counting_def)

subsection \<open>C9: \<^verbatim>\<open>reject\<close>\<close>

text \<open>
  C9. \<^verbatim>\<open>reject(c, p)\<close> is \<^verbatim>\<open>filter\<close> with the negation of \<open>p\<close>, and for a container
  that satisfies its class invariant (every sequence container does) the results of
  \<^verbatim>\<open>filter(c, p)\<close> and \<^verbatim>\<open>reject(c, p)\<close>, concatenated in either order, have the
  elements of \<open>c\<close> as a multiset.
\<close>

theorem Reject_complement:
  "Reject c p = Filter c (not_fn p) \<and>
   (well_formed c \<longrightarrow>
      mset (elems (returned (Filter c p)) @ elems (returned (Reject c p))) = mset (elems c) \<and>
      mset (elems (returned (Reject c p)) @ elems (returned (Filter c p))) = mset (elems c))"
  by (simp add: Reject_def [symmetric] Filter_elems Reject_elems)

theorem Reject_complement_witness:
  "elems (returned (Reject (Vector [1, 2, 3, 4]) is_even)) = [1, 3] \<and>
   mset (elems (returned (Filter (Vector [1, 2, 3, 4]) is_even)) @
         elems (returned (Reject (Vector [1, 2, 3, 4]) is_even))) = mset [1, 2, 3, 4]"
  using Reject_complement [of "Vector [1, 2, 3, 4]" is_even]
  by (simp add: Filter_def not_fn_def is_even_def)

subsection \<open>C10: the input container of the reading algorithms\<close>

text \<open>
  C10. \<^verbatim>\<open>map\<close>, \<^verbatim>\<open>filter\<close>, \<^verbatim>\<open>reject\<close>, \<^verbatim>\<open>some\<close>, \<^verbatim>\<open>every\<close> and \<^verbatim>\<open>none\<close>
  leave the container they are given as it was: they take it by \<^verbatim>\<open>const\<close> reference.
\<close>

theorem inputs_unchanged:
  "cont_after (Map dflt c f) = c \<and>
   cont_after (Filter k p) = k \<and>
   cont_after (Reject k p) = k \<and>
   cont_after (some c q) = c \<and>
   cont_after (every c q) = c \<and>
   cont_after (none c q) = c"
  by (simp add: Map_def Filter_def Reject_def some_def every_def none_def LogicMake_def)

theorem inputs_unchanged_witness:
  "cont_after (Map 0 [1, 2, 3, 4] multiply_by_2) = [1, 2, 3, 4] \<and>
   cont_after (Filter (Vector [1, 2, 3, 4]) is_even) = Vector [1, 2, 3, 4] \<and>
   cont_after (Reject (Vector [1, 2, 3, 4]) is_even) = Vector [1, 2, 3, 4] \<and>
   cont_after (some [1, 2, 3, 4] is_even) = [1, 2, 3, 4] \<and>
   cont_after (every [1, 2, 3, 4] is_even) = [1, 2, 3, 4] \<and>
   cont_after (none [1, 2, 3, 4] is_even) = [1, 2, 3, 4]"
  using inputs_unchanged
    [of 0 "[1, 2, 3, 4]" multiply_by_2 "Vector [1, 2, 3, 4]" is_even is_even]
  by simp

end
